theory Spec2Isabelle
  imports Main "HOL-Library.Sublist"
begin

section \<open>The channel model (pkg/model/model.go)\<close>

text \<open>
  Go errors are modelled by their message. A function returning \<open>(T, error)\<close> returns
  \<open>error + T\<close>, with \<open>Inl\<close> carrying the message of the error.
\<close>

type_synonym error = string

text \<open>
  \<open>model.Bundle\<close>: the fields read by \<open>Channel.Head\<close> and by
  \<open>getAllNonChannelHeads\<close>. The back pointers to the package and the channel are not
  part of the value.
\<close>

record Bundle =
  Name :: string
  Image :: string
  Replaces :: string
  Skips :: "string list"

text \<open>
  \<open>model.Channel\<close>. The Go field \<open>Bundles\<close> is a \<open>map[string]*Bundle\<close>; it is kept
  as the list of its entries, in the order in which \<open>range\<close> visits them. Go leaves that
  order open, so every statement below is made for an arbitrary list. The maps of a
  package and of the model are kept in the same way.
\<close>

record Channel =
  ChannelName :: string
  Bundles :: "(string \<times> Bundle) list"

record Package =
  PackageName :: string
  Channels :: "(string \<times> Channel) list"

type_synonym Model = "(string \<times> Package) list"

text \<open>\<open>incoming[k]++\<close> on a \<open>map[string]int\<close>: a missing key reads as zero.\<close>

definition incr :: "(string \<rightharpoonup> int) \<Rightarrow> string \<Rightarrow> (string \<rightharpoonup> int)" where
  "incr incoming k = incoming(k \<mapsto> (case incoming k of None \<Rightarrow> 0 | Some n \<Rightarrow> n) + 1)"

text \<open>The body of the first loop of \<open>Head\<close> for one bundle.\<close>

definition count_edges :: "Bundle \<Rightarrow> (string \<rightharpoonup> int) \<Rightarrow> (string \<rightharpoonup> int)" where
  "count_edges b incoming =
     fold (\<lambda>skip m. incr m skip) (Skips b)
       (if Replaces b \<noteq> [] then incr incoming (Replaces b) else incoming)"

definition incoming_edges :: "Channel \<Rightarrow> (string \<rightharpoonup> int)" where
  "incoming_edges c = fold count_edges (map snd (Bundles c)) Map.empty"

text \<open>\<open>strings.Join\<close>.\<close>

fun Join :: "string list \<Rightarrow> string \<Rightarrow> string" where
  "Join [] sep = []"
| "Join [x] sep = x"
| "Join (x # y # zs) sep = x @ sep @ Join (y # zs) sep"

definition Head :: "Channel \<Rightarrow> error + Bundle" where
  "Head c =
     (let incoming = incoming_edges c;
          heads = filter (\<lambda>b. incoming (Name b) = None) (map snd (Bundles c))
      in if length heads = 0 then Inl ''no channel head found in graph''
         else if length heads > 1 then
           Inl (''multiple channel heads found in graph: '' @ Join (map Name heads) '', '')
         else Inr (hd heads))"

text \<open>
  The reading of the graph that the head is defined by: bundle name \<open>n\<close> has an incoming
  edge when some bundle of the channel replaces \<open>n\<close> (an empty \<open>Replaces\<close> is no edge)
  or lists \<open>n\<close> among its skips.
\<close>

definition has_incoming :: "Channel \<Rightarrow> string \<Rightarrow> bool" where
  "has_incoming c n =
     (\<exists>b \<in> set (map snd (Bundles c)). (Replaces b \<noteq> [] \<and> Replaces b = n) \<or> n \<in> set (Skips b))"

definition candidates :: "Channel \<Rightarrow> Bundle list" where
  "candidates c = filter (\<lambda>b. \<not> has_incoming c (Name b)) (map snd (Bundles c))"

section \<open>Properties and catalog files (main.go)\<close>

text \<open>
  \<open>property.Property\<close>: a type tag and the raw JSON payload (\<open>json.RawMessage\<close>, the
  bytes as they stand in the file).
\<close>

record Property =
  Type :: string
  Value :: string

text \<open>
  Modelled from the spec: the constant \<open>property.TypeBundleObject\<close> is declared outside
  the sources at hand. The spec calls it the type tag "bundle object"; the log lines of
  main.go spell it \<open>olm.bundle.object\<close>.
\<close>

definition TypeBundleObject :: string where
  "TypeBundleObject = ''olm.bundle.object''"

text \<open>
  Modelled from the spec: the type \<open>property.BundleObject\<close> is declared outside the
  sources at hand. "A bundle-object property payload is either inline manifest bytes or a
  relative-path reference to an externally stored manifest file."
\<close>

datatype BundleObject = ObjectRef string | ObjectData string

fun IsRef :: "BundleObject \<Rightarrow> bool" where
  "IsRef (ObjectRef r) = True"
| "IsRef (ObjectData d) = False"

fun GetRef :: "BundleObject \<Rightarrow> string" where
  "GetRef (ObjectRef r) = r"
| "GetRef (ObjectData d) = []"

text \<open>
  Modelled from the spec: the type \<open>declcfg.Bundle\<close> is declared outside the sources at
  hand. main.go reads \<open>Image\<close> and \<open>Properties\<close>; the spec adds the "ordered sequence of
  extracted manifest object bytes plus a legacy single-object blob field"
  (\<open>Objects\<close> and \<open>CsvJSON\<close>).
\<close>

record declcfg_Bundle =
  bundle_Name :: string
  bundle_Package :: string
  bundle_Image :: string
  Properties :: "Property list"
  Objects :: "string list"
  CsvJSON :: string

text \<open>
  Modelled from the spec: the type \<open>declcfg.DeclarativeConfig\<close> is declared outside the
  sources at hand. main.go reads and writes its \<open>Bundles\<close>, the sub-catalog of one file
  or the whole catalog.
\<close>

record DeclarativeConfig =
  cfg_Bundles :: "declcfg_Bundle list"

datatype format = YAML | JSON

text \<open>
  The state that the command acts on: the paths present on disk, the \<open>Pull\<close> calls made
  on the image registry (oldest first), and the catalog files written back, each with its
  path, its format and its content.
\<close>

record world =
  files :: "string list"
  pulls :: "string list"
  written :: "(string \<times> format \<times> DeclarativeConfig) list"

text \<open>
  The collaborators of main.go that live outside the sources at hand are parameters: the
  model converter, the registry client (the outcome of the \<open>n\<close>-th \<open>Pull\<close> call, of
  \<open>Unpack\<close> and of \<open>registry.NewImageInput\<close>, which yields the objects of the unpacked
  bundle), the attempt budget of \<open>retry.DefaultRetry\<close>, \<open>os.MkdirTemp\<close> (an error, or
  the name of the directory it creates, given the paths present), the JSON codec of
  bundle-object payloads, the property builder, \<open>filepath.Join\<close> and \<open>filepath.Dir\<close>,
  the \<open>%q\<close> verb of \<open>fmt\<close>, and the outcomes of \<open>os.OpenFile\<close> and of the two writers.
\<close>

record env =
  ConvertToModel :: "DeclarativeConfig \<Rightarrow> error + Model"
  Pull_result :: "nat \<Rightarrow> string \<Rightarrow> error option"
  Steps :: nat
  MkdirTemp_result :: "string list \<Rightarrow> error + string"
  Unpack_result :: "string \<Rightarrow> string \<Rightarrow> error option"
  NewImageInput :: "string \<Rightarrow> string \<Rightarrow> error + string list"
  Unmarshal :: "string \<Rightarrow> error + BundleObject"
  Marshal :: "string \<Rightarrow> error + string"
  MustBuildBundleObjectData :: "string \<Rightarrow> Property"
  filepath_Join :: "string list \<Rightarrow> string"
  filepath_Dir :: "string \<Rightarrow> string"
  fmt_q :: "string \<Rightarrow> string"
  OpenFile_result :: "string \<Rightarrow> error option"
  Write_result :: "format \<Rightarrow> DeclarativeConfig \<Rightarrow> error option"

subsection \<open>Retrying the pull\<close>

text \<open>
  \<open>nonRetryableRegex\<close> is the pattern \<open>(error resolving name)\<close>: one group around a
  literal, so \<open>MatchString\<close> holds of the strings that contain the literal.
\<close>

definition nonRetryableRegex :: string where
  "nonRetryableRegex = ''error resolving name''"

fun MatchString :: "string \<Rightarrow> string \<Rightarrow> bool" where
  "MatchString pat [] = (pat = [])"
| "MatchString pat (c # cs) = (prefix pat (c # cs) \<or> MatchString pat cs)"

text \<open>The predicate handed to \<open>retry.OnError\<close> (main.go, lines 105 to 111).\<close>

definition retriable :: "error \<Rightarrow> bool" where
  "retriable err = (if MatchString nonRetryableRegex err then False else True)"

text \<open>
  Modelled from the spec: \<open>retry.OnError\<close> (k8s.io/client-go/util/retry) is outside the
  sources at hand. "Retry policy: bounded number of attempts with increasing backoff;
  accepts a predicate deciding whether a given error is retryable"; an error that the
  predicate rejects "short-circuits retries and fails immediately", all others "are
  retried up to the policy's attempt budget, then surfaced". The first argument is the
  number of attempts left; the waiting between attempts is not modelled. A budget of
  zero makes no attempt.
\<close>

fun OnError :: "nat \<Rightarrow> (error \<Rightarrow> bool) \<Rightarrow> ('s \<Rightarrow> error option \<times> 's) \<Rightarrow> 's \<Rightarrow> error option \<times> 's" where
  "OnError 0 retry fn s = (None, s)"
| "OnError (Suc n) retry fn s =
     (case fn s of
        (None, s') \<Rightarrow> (None, s')
      | (Some err, s') \<Rightarrow>
          if retry err then (if n = 0 then (Some err, s') else OnError n retry fn s')
          else (Some err, s'))"

text \<open>\<open>imageRegistry.Pull\<close>: the call is recorded, its outcome is the collaborator's.\<close>

definition Pull :: "env \<Rightarrow> string \<Rightarrow> world \<Rightarrow> error option \<times> world" where
  "Pull E imgRef w = (Pull_result E (length (pulls w)) imgRef, w\<lparr>pulls := pulls w @ [imgRef]\<rparr>)"

definition pull_image :: "env \<Rightarrow> string \<Rightarrow> world \<Rightarrow> error option \<times> world" where
  "pull_image E imgRef w = OnError (Steps E) retriable (Pull E imgRef) w"

subsection \<open>The file system\<close>

text \<open>\<open>os.MkdirTemp\<close>: on success the new directory is on disk.\<close>

definition MkdirTemp :: "env \<Rightarrow> world \<Rightarrow> (error + string) \<times> world" where
  "MkdirTemp E w =
     (case MkdirTemp_result E (files w) of
        Inl err \<Rightarrow> (Inl err, w)
      | Inr dir \<Rightarrow> (Inr dir, w\<lparr>files := files w @ [dir]\<rparr>))"

text \<open>\<open>os.RemoveAll\<close>: the path and everything below it are gone; its error is dropped.\<close>

definition RemoveAll :: "string \<Rightarrow> world \<Rightarrow> world" where
  "RemoveAll p w = w\<lparr>files := filter (\<lambda>q. \<not> (q = p \<or> prefix (p @ ''/'') q)) (files w)\<rparr>"

text \<open>
  \<open>filepath.Ext\<close> of the Go library: the suffix from the last dot of the last path
  element, empty when that element has no dot. The scan runs from the end of the path
  and stops at a separator.
\<close>

fun ext_scan :: "string \<Rightarrow> string \<Rightarrow> string" where
  "ext_scan [] acc = []"
| "ext_scan (c # cs) acc =
     (if c = CHR ''/'' then []
      else if c = CHR ''.'' then c # acc
      else ext_scan cs (c # acc))"

definition Ext :: "string \<Rightarrow> string" where
  "Ext path = ext_scan (rev path) []"

subsection \<open>Rewriting the property list\<close>

text \<open>
  Both loops start from \<open>props := b.Properties[:0]\<close>: \<open>props\<close> shares the array of
  \<open>b.Properties\<close>, and \<open>append(props, p)\<close> writes \<open>p\<close> into that array at index
  \<open>len(props)\<close> while \<open>range\<close> is still reading it. The loops are therefore modelled on
  the array \<open>arr\<close> and the length \<open>n\<close> of \<open>props\<close>; the value of \<open>props\<close> is
  \<open>take n arr\<close>.
\<close>

definition prune_step :: "nat \<Rightarrow> Property list \<times> nat \<Rightarrow> Property list \<times> nat" where
  "prune_step i = (\<lambda>(arr, n).
     let p = arr ! i in
     if Type p \<noteq> TypeBundleObject then (arr[n := p], Suc n) else (arr, n))"

definition prune_props :: "Property list \<Rightarrow> Property list" where
  "prune_props ps = (case fold prune_step [0..<length ps] (ps, 0) of (arr, n) \<Rightarrow> take n arr)"

text \<open>The loop of lines 128 to 141, over the indices still to visit.\<close>

fun inline_loop ::
  "env \<Rightarrow> string \<Rightarrow> string \<Rightarrow> nat list \<Rightarrow> Property list \<Rightarrow> nat \<Rightarrow> world
     \<Rightarrow> (error + Property list \<times> nat) \<times> world" where
  "inline_loop E rootDir path [] arr n w = (Inr (arr, n), w)"
| "inline_loop E rootDir path (i # is) arr n w =
     (let p = arr ! i in
      if Type p \<noteq> TypeBundleObject then inline_loop E rootDir path is (arr[n := p]) (Suc n) w
      else
        case Unmarshal E (Value p) of
          Inl err \<Rightarrow> (Inl err, w)
        | Inr obj \<Rightarrow>
            if IsRef obj then
              inline_loop E rootDir path is arr n
                (RemoveAll (filepath_Join E [rootDir, filepath_Dir E path, GetRef obj]) w)
            else inline_loop E rootDir path is arr n w)"

text \<open>The loop of lines 143 to 149.\<close>

fun append_objects :: "env \<Rightarrow> string list \<Rightarrow> Property list \<Rightarrow> error + Property list" where
  "append_objects E [] props = Inr props"
| "append_objects E (obj # objs) props =
     (case Marshal E obj of
        Inl err \<Rightarrow> Inl err
      | Inr objJson \<Rightarrow> append_objects E objs (props @ [MustBuildBundleObjectData E objJson]))"

text \<open>
  Lines 102 to 152: the branch that pulls and unpacks the image and rewrites the
  property list. An \<open>image.SimpleReference\<close> is the image string itself. The files that
  \<open>Unpack\<close> puts below the scratch directory are not tracked, the directory itself is.
\<close>

definition inline_bundle ::
  "env \<Rightarrow> string \<Rightarrow> string \<Rightarrow> declcfg_Bundle \<Rightarrow> world \<Rightarrow> (error + declcfg_Bundle) \<times> world" where
  "inline_bundle E rootDir path b w =
     (let imgRef = bundle_Image b in
      case pull_image E imgRef w of
        (Some err, w1) \<Rightarrow> (Inl (''pull image '' @ fmt_q E imgRef @ '': '' @ err), w1)
      | (None, w1) \<Rightarrow>
         (case MkdirTemp E w1 of
            (Inl err, w2) \<Rightarrow> (Inl err, w2)
          | (Inr tmpDir, w2) \<Rightarrow>
             (case Unpack_result E imgRef tmpDir of
                Some err \<Rightarrow> (Inl err, w2)
              | None \<Rightarrow>
                 (case NewImageInput E (bundle_Image b) tmpDir of
                    Inl err \<Rightarrow> (Inl err, w2)
                  | Inr objects \<Rightarrow>
                     (case inline_loop E rootDir path [0..<length (Properties b)] (Properties b) 0 w2 of
                        (Inl err, w3) \<Rightarrow> (Inl err, w3)
                      | (Inr (arr, n), w3) \<Rightarrow>
                         (case append_objects E objects (take n arr) of
                            Inl err \<Rightarrow> (Inl err, w3)
                          | Inr props \<Rightarrow> (Inr (b\<lparr>Properties := props\<rparr>), w3)))))))"

text \<open>
  The body of the loop over the bundles of one file (lines 85 to 153): the new value of
  \<open>fcfg.Bundles[i]\<close>, or the error that ends the task. The log lines are left out.
\<close>

definition process_bundle ::
  "env \<Rightarrow> bool \<Rightarrow> string set \<Rightarrow> string set \<Rightarrow> string \<Rightarrow> string \<Rightarrow> declcfg_Bundle \<Rightarrow> world
     \<Rightarrow> (error + declcfg_Bundle) \<times> world" where
  "process_bundle E pruneNonHeadObjects nonChannelHeads bundleImages rootDir path b w =
     (let slot = (if pruneNonHeadObjects \<and> bundle_Image b \<in> nonChannelHeads
                  then b\<lparr>Properties := prune_props (Properties b)\<rparr> else b)
      in if pruneNonHeadObjects \<and> bundle_Image b \<in> nonChannelHeads then (Inr slot, w)
         else if bundleImages = {} \<or> bundle_Image b \<in> bundleImages
              then inline_bundle E rootDir path b w
         else (Inr slot, w))"

fun process_bundles ::
  "env \<Rightarrow> bool \<Rightarrow> string set \<Rightarrow> string set \<Rightarrow> string \<Rightarrow> string \<Rightarrow> declcfg_Bundle list \<Rightarrow> world
     \<Rightarrow> (error + declcfg_Bundle list) \<times> world" where
  "process_bundles E pr nch imgs rootDir path [] w = (Inr [], w)"
| "process_bundles E pr nch imgs rootDir path (b # bs) w =
     (case process_bundle E pr nch imgs rootDir path b w of
        (Inl err, w1) \<Rightarrow> (Inl err, w1)
      | (Inr b', w1) \<Rightarrow>
         (case process_bundles E pr nch imgs rootDir path bs w1 of
            (Inl err, w2) \<Rightarrow> (Inl err, w2)
          | (Inr bs', w2) \<Rightarrow> (Inr (b' # bs'), w2)))"

text \<open>
  The task of one catalog file (lines 83 to 169): rewrite its bundles, then open the file
  and write it back. Only a completed write is recorded; that opening the file truncates
  it is not modelled.
\<close>

definition file_task ::
  "env \<Rightarrow> bool \<Rightarrow> string set \<Rightarrow> string set \<Rightarrow> string \<Rightarrow> string \<Rightarrow> DeclarativeConfig \<Rightarrow> world
     \<Rightarrow> error option \<times> world" where
  "file_task E pr nch imgs rootDir path fcfg w =
     (case process_bundles E pr nch imgs rootDir path (cfg_Bundles fcfg) w of
        (Inl err, w1) \<Rightarrow> (Some err, w1)
      | (Inr bs, w1) \<Rightarrow>
         (let fcfg' = fcfg\<lparr>cfg_Bundles := bs\<rparr>;
              f = filepath_Join E [rootDir, path]
          in case OpenFile_result E f of
               Some err \<Rightarrow> (Some err, w1)
             | None \<Rightarrow>
                 if Ext path = ''.yaml'' then
                   (case Write_result E YAML fcfg' of
                      Some err \<Rightarrow> (Some err, w1)
                    | None \<Rightarrow> (None, w1\<lparr>written := written w1 @ [(f, YAML, fcfg')]\<rparr>))
                 else
                   (case Write_result E JSON fcfg' of
                      Some err \<Rightarrow> (Some err, w1)
                    | None \<Rightarrow> (None, w1\<lparr>written := written w1 @ [(f, JSON, fcfg')]\<rparr>))))"

subsection \<open>Classifying the bundles\<close>

text \<open>
  \<open>getAllNonChannelHeads\<close>. A \<open>sets.String\<close> is a set of strings. The first three nested
  loops insert the image of every bundle; the second pair of loops deletes the image of
  every channel head and returns at the first channel without one.
\<close>

definition insert_images :: "Model \<Rightarrow> string set" where
  "insert_images m =
     fold (\<lambda>pkg S.
            fold (\<lambda>ch S. fold (\<lambda>b S. insert (Image b) S) (map snd (Bundles ch)) S)
                 (map snd (Channels pkg)) S)
          (map snd m) {}"

fun delete_heads_channels :: "Channel list \<Rightarrow> string set \<Rightarrow> error + string set" where
  "delete_heads_channels [] S = Inr S"
| "delete_heads_channels (ch # chs) S =
     (case Head ch of
        Inl err \<Rightarrow> Inl err
      | Inr head \<Rightarrow> delete_heads_channels chs (S - {Image head}))"

fun delete_heads :: "Package list \<Rightarrow> string set \<Rightarrow> error + string set" where
  "delete_heads [] S = Inr S"
| "delete_heads (pkg # pkgs) S =
     (case delete_heads_channels (map snd (Channels pkg)) S of
        Inl err \<Rightarrow> Inl err
      | Inr S' \<Rightarrow> delete_heads pkgs S')"

definition getAllNonChannelHeads :: "env \<Rightarrow> DeclarativeConfig \<Rightarrow> error + string set" where
  "getAllNonChannelHeads E cfg =
     (case ConvertToModel E cfg of
        Inl err \<Rightarrow> Inl (''convert index to model: '' @ err)
      | Inr m \<Rightarrow> delete_heads (map snd m) (insert_images m))"

subsection \<open>The command\<close>

text \<open>
  The tasks of the walked files. main.go starts one goroutine per file and waits for all
  of them; here they run one after the other in the order of the walk, every task runs
  whether or not an earlier one failed, and the error of the run is the first one in
  that order.
\<close>

fun run_tasks ::
  "env \<Rightarrow> bool \<Rightarrow> string set \<Rightarrow> string set \<Rightarrow> string \<Rightarrow> (string \<times> DeclarativeConfig) list \<Rightarrow> world
     \<Rightarrow> error option \<times> world" where
  "run_tasks E pr nch imgs rootDir [] w = (None, w)"
| "run_tasks E pr nch imgs rootDir ((path, fcfg) # rest) w =
     (case file_task E pr nch imgs rootDir path fcfg w of
        (r, w1) \<Rightarrow>
          (case run_tasks E pr nch imgs rootDir rest w1 of
             (r', w2) \<Rightarrow> (case r of Some err \<Rightarrow> Some err | None \<Rightarrow> r', w2)))"

datatype outcome = ImagesNotFound "string set" | Fatal error | Finished

text \<open>
  The \<open>Run\<close> function of the command, from line 61 on: \<open>cfg\<close> is the catalog that
  \<open>declcfg.LoadFS\<close> returned, \<open>walked\<close> the files that \<open>declcfg.WalkFS\<close> hands to its
  callback without an error, \<open>args\<close> the image arguments. \<open>log.Fatal\<close> ends the run.
\<close>

definition run ::
  "env \<Rightarrow> bool \<Rightarrow> string \<Rightarrow> string list \<Rightarrow> DeclarativeConfig \<Rightarrow> (string \<times> DeclarativeConfig) list
     \<Rightarrow> world \<Rightarrow> outcome \<times> world" where
  "run E pruneNonHeadObjects rootDir args cfg walked w =
     (let bundleImages = set args;
          allBundleImages = set (map bundle_Image (cfg_Bundles cfg));
          notPresentImages = bundleImages - allBundleImages
      in if notPresentImages \<noteq> {} then (ImagesNotFound notPresentImages, w)
         else
           case (if pruneNonHeadObjects then getAllNonChannelHeads E cfg else Inr {}) of
             Inl err \<Rightarrow> (Fatal err, w)
           | Inr nonChannelHeads \<Rightarrow>
               (case run_tasks E pruneNonHeadObjects nonChannelHeads bundleImages rootDir walked w of
                  (Some err, w') \<Rightarrow> (Fatal err, w')
                | (None, w') \<Rightarrow> (Finished, w')))"

subsection \<open>Notions used in the statements\<close>

text \<open>The properties of a list that are not tagged as bundle objects, in their order.\<close>

definition non_objects :: "Property list \<Rightarrow> Property list" where
  "non_objects ps = filter (\<lambda>p. Type p \<noteq> TypeBundleObject) ps"

text \<open>
  The channels of a model, the images of all its bundles, the images of the heads of its
  channels, and the presence of a channel without a unique head.
\<close>

definition model_channels :: "Model \<Rightarrow> Channel list" where
  "model_channels m = concat (map (\<lambda>pkg. map snd (Channels pkg)) (map snd m))"

definition model_images :: "Model \<Rightarrow> string set" where
  "model_images m = (\<Union>ch \<in> set (model_channels m). Image ` snd ` set (Bundles ch))"

definition head_images :: "Model \<Rightarrow> string set" where
  "head_images m =
     (\<Union>ch \<in> set (model_channels m). case Head ch of Inl err \<Rightarrow> {} | Inr h \<Rightarrow> {Image h})"

definition graph_error :: "Model \<Rightarrow> bool" where
  "graph_error m = (\<exists>ch \<in> set (model_channels m). isl (Head ch))"

definition heads_of :: "Channel list \<Rightarrow> string set" where
  "heads_of chs = (\<Union>ch \<in> set chs. case Head ch of Inl err \<Rightarrow> {} | Inr h \<Rightarrow> {Image h})"

section \<open>Sample inputs\<close>

text \<open>The channel of the example scenario, a forked channel and a cyclic one.\<close>

definition v1 :: Bundle where
  "v1 = \<lparr>Name = ''v1'', Image = ''img1'', Replaces = [], Skips = []\<rparr>"

definition v2 :: Bundle where
  "v2 = \<lparr>Name = ''v2'', Image = ''img2'', Replaces = ''v1'', Skips = []\<rparr>"

definition v3 :: Bundle where
  "v3 = \<lparr>Name = ''v3'', Image = ''img3'', Replaces = [], Skips = [''v0'']\<rparr>"

definition chan_linear :: Channel where
  "chan_linear = \<lparr>ChannelName = ''stable'', Bundles = [(''v1'', v1), (''v2'', v2)]\<rparr>"

definition chan_forked :: Channel where
  "chan_forked = \<lparr>ChannelName = ''forked'', Bundles = [(''v1'', v1), (''v3'', v3)]\<rparr>"

definition chan_cycle :: Channel where
  "chan_cycle = \<lparr>ChannelName = ''cycle'',
      Bundles = [(''v1'', v1\<lparr>Replaces := ''v2''\<rparr>), (''v2'', v2)]\<rparr>"

text \<open>
  A run of the example scenario: a toy codec for bundle-object payloads (\<open>ref:\<close> or
  \<open>data:\<close> in front of the content), a registry whose pulls succeed, and a catalog
  directory with one file and two referenced manifests.
\<close>

definition demo_unmarshal :: "string \<Rightarrow> error + BundleObject" where
  "demo_unmarshal v =
     (if prefix ''ref:'' v then Inr (ObjectRef (drop 4 v))
      else if prefix ''data:'' v then Inr (ObjectData (drop 5 v))
      else Inl ''invalid bundle object'')"

definition demo_join :: "string list \<Rightarrow> string" where
  "demo_join ps = Join (filter (\<lambda>p. p \<noteq> ''.'' \<and> p \<noteq> []) ps) ''/''"

definition demo_model :: Model where
  "demo_model = [(''pkg'', \<lparr>PackageName = ''pkg'', Channels = [(''stable'', chan_linear)]\<rparr>)]"

definition demo_env :: env where
  "demo_env = \<lparr>
     ConvertToModel = (\<lambda>cfg. Inr demo_model),
     Pull_result = (\<lambda>n imgRef. None),
     Steps = 5,
     MkdirTemp_result = (\<lambda>present. Inr ''/tmp/declcfg-inline-bundles-1''),
     Unpack_result = (\<lambda>imgRef dir. None),
     NewImageInput = (\<lambda>imgRef dir. Inr [''A'', ''B'']),
     Unmarshal = demo_unmarshal,
     Marshal = Inr,
     MustBuildBundleObjectData = (\<lambda>d. \<lparr>Type = TypeBundleObject, Value = ''data:'' @ d\<rparr>),
     filepath_Join = demo_join,
     filepath_Dir = (\<lambda>path. ''.''),
     fmt_q = (\<lambda>s. s),
     OpenFile_result = (\<lambda>f. None),
     Write_result = (\<lambda>fmt cfg. None)\<rparr>"

definition p_package :: Property where
  "p_package = \<lparr>Type = ''olm.package'', Value = ''pkg''\<rparr>"

definition p_channel :: Property where
  "p_channel = \<lparr>Type = ''olm.channel'', Value = ''stable''\<rparr>"

definition p_ref :: "string \<Rightarrow> Property" where
  "p_ref r = \<lparr>Type = ''olm.bundle.object'', Value = ''ref:'' @ r\<rparr>"

definition bundle_v1 :: declcfg_Bundle where
  "bundle_v1 = \<lparr>bundle_Name = ''v1'', bundle_Package = ''pkg'', bundle_Image = ''img1'',
     Properties = [p_package, p_ref ''objects/v1.yaml'', p_channel],
     Objects = [''old-object''], CsvJSON = ''old-csv''\<rparr>"

definition bundle_v2 :: declcfg_Bundle where
  "bundle_v2 = \<lparr>bundle_Name = ''v2'', bundle_Package = ''pkg'', bundle_Image = ''img2'',
     Properties = [p_ref ''objects/v2.yaml'', p_package, p_channel],
     Objects = [''old-object''], CsvJSON = ''old-csv''\<rparr>"

definition world0 :: world where
  "world0 = \<lparr>files = [''catalog/index.yaml'', ''catalog/objects/v1.yaml'', ''catalog/objects/v2.yaml''],
     pulls = [], written = []\<rparr>"

text \<open>The same run with an image that cannot be unpacked.\<close>

definition demo_env_unpack_fails :: env where
  "demo_env_unpack_fails = demo_env\<lparr>Unpack_result := (\<lambda>imgRef dir. Some ''unpack failed'')\<rparr>"

text \<open>A registry that cannot resolve the name, and one that always resets the connection.\<close>

definition demo_env_unresolved :: env where
  "demo_env_unresolved =
     demo_env\<lparr>Pull_result := (\<lambda>n imgRef. Some ''error resolving name: no such host'')\<rparr>"

definition demo_env_flaky :: env where
  "demo_env_flaky = demo_env\<lparr>Pull_result := (\<lambda>n imgRef. Some ''connection reset'')\<rparr>"

text \<open>A catalog file with the first bundle.\<close>

definition demo_cfg :: DeclarativeConfig where
  "demo_cfg = \<lparr>cfg_Bundles = [bundle_v1]\<rparr>"

text \<open>
  A second channel in which the head of the first has an incoming edge, and the models
  and converters for a package with both channels and for one with the forked channel.
\<close>

definition v4 :: Bundle where
  "v4 = \<lparr>Name = ''v4'', Image = ''img4'', Replaces = [], Skips = [''v2'']\<rparr>"

definition chan_beta :: Channel where
  "chan_beta = \<lparr>ChannelName = ''beta'',
      Bundles = [(''v2'', v2\<lparr>Replaces := []\<rparr>), (''v4'', v4)]\<rparr>"

definition two_channel_model :: Model where
  "two_channel_model =
     [(''pkg'', \<lparr>PackageName = ''pkg'',
                 Channels = [(''stable'', chan_linear), (''beta'', chan_beta)]\<rparr>)]"

definition forked_model :: Model where
  "forked_model = [(''pkg'', \<lparr>PackageName = ''pkg'', Channels = [(''forked'', chan_forked)]\<rparr>)]"

definition demo_env_two :: env where
  "demo_env_two = demo_env\<lparr>ConvertToModel := (\<lambda>cfg. Inr two_channel_model)\<rparr>"

definition demo_env_forked :: env where
  "demo_env_forked = demo_env\<lparr>ConvertToModel := (\<lambda>cfg. Inr forked_model)\<rparr>"

section \<open>Head of a channel\<close>

lemma dom_incr: "dom (incr m k) = insert k (dom m)"
  by (simp add: incr_def)

lemma dom_fold_incr: "dom (fold (\<lambda>skip m. incr m skip) ks m) = dom m \<union> set ks"
  by (induction ks arbitrary: m) (auto simp: dom_incr)

lemma dom_count_edges:
  "dom (count_edges b m) = dom m \<union> (if Replaces b \<noteq> [] then {Replaces b} else {}) \<union> set (Skips b)"
  by (simp add: count_edges_def dom_fold_incr dom_incr)

lemma dom_fold_count_edges:
  "dom (fold count_edges bs m) =
     dom m \<union> {n. \<exists>b \<in> set bs. (Replaces b \<noteq> [] \<and> Replaces b = n) \<or> n \<in> set (Skips b)}"
proof (induction bs arbitrary: m)
  case Nil
  then show ?case by simp
next
  case (Cons b bs)
  show ?case
    unfolding fold_simps Cons.IH dom_count_edges by auto
qed

lemma incoming_edges_None: "incoming_edges c n = None \<longleftrightarrow> \<not> has_incoming c n"
proof -
  have "n \<in> dom (incoming_edges c) \<longleftrightarrow> has_incoming c n"
    unfolding incoming_edges_def dom_fold_count_edges has_incoming_def by simp
  then show ?thesis by (auto simp: domIff)
qed

lemma heads_candidates:
  "filter (\<lambda>b. incoming_edges c (Name b) = None) (map snd (Bundles c)) = candidates c"
  by (simp add: candidates_def incoming_edges_None)

text \<open>
  C1. \<open>Head\<close> returns a bundle exactly when it is the only bundle of the channel whose
  name has no incoming replaces or skips edge. With no such bundle it fails with the
  no-head error, and with more than one it fails with the multiple-heads error whose
  message joins the names of all of them.
\<close>

theorem Head_unique_candidate:
  "(Head c = Inr h \<longleftrightarrow> candidates c = [h]) \<and>
   (candidates c = [] \<longrightarrow> Head c = Inl ''no channel head found in graph'') \<and>
   (1 < length (candidates c) \<longrightarrow>
      Head c = Inl (''multiple channel heads found in graph: ''
                    @ Join (map Name (candidates c)) '', ''))"
proof -
  have H: "Head c =
     (if length (candidates c) = 0 then Inl ''no channel head found in graph''
      else if length (candidates c) > 1 then
        Inl (''multiple channel heads found in graph: '' @ Join (map Name (candidates c)) '', '')
      else Inr (hd (candidates c)))"
    by (simp add: Head_def Let_def heads_candidates)
  have one: "length xs \<noteq> 0 \<Longrightarrow> \<not> 1 < length xs \<Longrightarrow> xs = [hd xs]" for xs :: "Bundle list"
    by (cases xs) auto
  show ?thesis
    unfolding H using one [of "candidates c"] by auto
qed

theorem Head_unique_candidate_witness:
  "candidates chan_linear = [v2] \<and> Head chan_linear = Inr v2 \<and>
   candidates chan_cycle = [] \<and> Head chan_cycle = Inl ''no channel head found in graph'' \<and>
   1 < length (candidates chan_forked) \<and>
   Head chan_forked = Inl ''multiple channel heads found in graph: v1, v3''"
proof -
  have a: "candidates chan_linear = [v2]"
    by (simp add: candidates_def has_incoming_def chan_linear_def v1_def v2_def)
  have b: "candidates chan_cycle = []"
    by (simp add: candidates_def has_incoming_def chan_cycle_def v1_def v2_def)
  have c: "candidates chan_forked = [v1, v3]"
    by (simp add: candidates_def has_incoming_def chan_forked_def v1_def v3_def)
  show ?thesis
    using Head_unique_candidate [of chan_linear v2] Head_unique_candidate [of chan_cycle v2]
      Head_unique_candidate [of chan_forked v2]
    by (simp add: a b c) (simp add: v1_def v3_def)
qed

section \<open>The property list of a rewritten bundle\<close>

text \<open>
  The loops that filter in place compute the filter: a write goes to an index that the
  read has passed.
\<close>

lemma prune_fold_invariant:
  "k \<le> length ps \<Longrightarrow>
   (case fold prune_step [0..<k] (ps, 0) of
      (arr, n) \<Rightarrow> take n arr = non_objects (take k ps) \<and> drop k arr = drop k ps \<and>
                  n \<le> k \<and> length arr = length ps)"
proof (induction k)
  case 0
  then show ?case by (simp add: non_objects_def)
next
  case (Suc k)
  obtain arr n where st: "fold prune_step [0..<k] (ps, 0) = (arr, n)"
    by (cases "fold prune_step [0..<k] (ps, 0)")
  from Suc st have inv: "take n arr = non_objects (take k ps)" "drop k arr = drop k ps"
    "n \<le> k" "length arr = length ps" and k: "k < length ps"
    by auto
  have at: "arr ! k = ps ! k"
    using inv(2) inv(4) k by (metis Cons_nth_drop_Suc list.inject)
  have dr: "drop (Suc k) arr = drop (Suc k) ps"
    using inv(2) by (metis drop_Suc tl_drop)
  have tk: "take (Suc k) ps = take k ps @ [ps ! k]"
    using k by (simp add: take_Suc_conv_app_nth)
  have step: "fold prune_step [0..<Suc k] (ps, 0) = prune_step k (arr, n)"
    by (simp add: st)
  show ?case
  proof (cases "Type (ps ! k) \<noteq> TypeBundleObject")
    case True
    have res: "prune_step k (arr, n) = (arr[n := ps ! k], Suc n)"
      using True at by (simp add: prune_step_def)
    have "take (Suc n) (arr[n := ps ! k]) = take n arr @ [ps ! k]"
      using inv(3) inv(4) k by (simp add: take_Suc_conv_app_nth)
    moreover have "drop (Suc k) (arr[n := ps ! k]) = drop (Suc k) arr"
      using inv(3) by simp
    ultimately show ?thesis
      unfolding step res using True inv dr tk by (simp add: non_objects_def)
  next
    case False
    have res: "prune_step k (arr, n) = (arr, n)"
      using False at by (simp add: prune_step_def)
    show ?thesis
      unfolding step res using False inv dr tk by (simp add: non_objects_def)
  qed
qed

lemma prune_props_filter: "prune_props ps = non_objects ps"
  using prune_fold_invariant [of "length ps" ps]
  by (auto simp: prune_props_def split: prod.splits)


lemma inline_loop_props:
  "inline_loop E rootDir path [k..<length arr] arr n w = (Inr (arr', n'), w') \<Longrightarrow> n \<le> k \<Longrightarrow>
   take n' arr' = take n arr @ non_objects (drop k arr)"
proof (induction "length arr - k" arbitrary: k arr n w)
  case 0
  then show ?case by (simp add: non_objects_def)
next
  case (Suc d)
  then have k: "k < length arr" by simp
  have idx: "[k..<length arr] = k # [Suc k..<length arr]"
    using k by (simp add: upt_conv_Cons)
  have dk: "drop k arr = arr ! k # drop (Suc k) arr"
    using k by (simp add: Cons_nth_drop_Suc)
  show ?case
  proof (cases "Type (arr ! k) \<noteq> TypeBundleObject")
    case True
    let ?arr = "arr[n := arr ! k]"
    have run: "inline_loop E rootDir path [Suc k..<length ?arr] ?arr (Suc n) w = (Inr (arr', n'), w')"
      using Suc.prems(1) True unfolding idx by simp
    have d: "d = length ?arr - Suc k" using Suc.hyps(2) by simp
    have "take n' arr' = take (Suc n) ?arr @ non_objects (drop (Suc k) ?arr)"
      using Suc.hyps(1) [OF d run] Suc.prems(2) by simp
    moreover have "take (Suc n) ?arr = take n arr @ [arr ! k]"
      using Suc.prems(2) k by (simp add: take_Suc_conv_app_nth)
    moreover have "drop (Suc k) ?arr = drop (Suc k) arr"
      using Suc.prems(2) by simp
    ultimately show ?thesis
      using True dk by (simp add: non_objects_def)
  next
    case False
    have d: "d = length arr - Suc k" using Suc.hyps(2) by simp
    from Suc.prems(1) False obtain w1 where
      run: "inline_loop E rootDir path [Suc k..<length arr] arr n w1 = (Inr (arr', n'), w')"
      unfolding idx by (auto simp: Let_def split: sum.splits if_splits)
    have "take n' arr' = take n arr @ non_objects (drop (Suc k) arr)"
      using Suc.hyps(1) [OF d run] Suc.prems(2) by simp
    then show ?thesis
      using False dk by (simp add: non_objects_def)
  qed
qed

lemma append_objects_success:
  "append_objects E objs props = Inr props' \<Longrightarrow>
   \<exists>jsons. map (Marshal E) objs = map Inr jsons \<and>
           props' = props @ map (MustBuildBundleObjectData E) jsons"
proof (induction objs arbitrary: props)
  case Nil
  then show ?case by simp
next
  case (Cons obj objs)
  from Cons.prems obtain j where j: "Marshal E obj = Inr j"
    and rest: "append_objects E objs (props @ [MustBuildBundleObjectData E j]) = Inr props'"
    by (auto split: sum.splits)
  from Cons.IH [OF rest] obtain js where
    js: "map (Marshal E) objs = map Inr js"
        "props' = (props @ [MustBuildBundleObjectData E j]) @ map (MustBuildBundleObjectData E) js"
    by blast
  have "map (Marshal E) (obj # objs) = map Inr (j # js)"
    using j js(1) by simp
  moreover have "props' = props @ map (MustBuildBundleObjectData E) (j # js)"
    using js(2) by simp
  ultimately show ?case by blast
qed

lemma inline_bundle_success:
  assumes "inline_bundle E rootDir path b w = (Inr b', w')"
  shows "\<exists>tmpDir objects jsons.
           NewImageInput E (bundle_Image b) tmpDir = Inr objects \<and>
           map (Marshal E) objects = map Inr jsons \<and>
           b' = b\<lparr>Properties := non_objects (Properties b) @ map (MustBuildBundleObjectData E) jsons\<rparr>"
proof -
  from assms obtain w1 tmpDir w2 objects arr n props where
    img: "NewImageInput E (bundle_Image b) tmpDir = Inr objects" and
    loop: "inline_loop E rootDir path [0..<length (Properties b)] (Properties b) 0 w2 = (Inr (arr, n), w')" and
    app: "append_objects E objects (take n arr) = Inr props" and
    b': "b' = b\<lparr>Properties := props\<rparr>"
    unfolding inline_bundle_def Let_def
    by (auto split: prod.splits option.splits sum.splits)
  have "take n arr = non_objects (Properties b)"
    using inline_loop_props [OF loop] by simp
  with append_objects_success [OF app] img b' show ?thesis by auto
qed

lemma process_bundle_prune:
  "pr \<Longrightarrow> bundle_Image b \<in> nch \<Longrightarrow>
   process_bundle E pr nch imgs rootDir path b w = (Inr (b\<lparr>Properties := non_objects (Properties b)\<rparr>), w)"
  by (simp add: process_bundle_def prune_props_filter)

lemma process_bundle_cases:
  assumes "process_bundle E pr nch imgs rootDir path b w = (Inr b', w')"
  shows "(pr \<and> bundle_Image b \<in> nch \<and> b' = b\<lparr>Properties := non_objects (Properties b)\<rparr> \<and> w' = w) \<or>
         (\<not> (pr \<and> bundle_Image b \<in> nch) \<and> (imgs = {} \<or> bundle_Image b \<in> imgs) \<and>
            inline_bundle E rootDir path b w = (Inr b', w')) \<or>
         (\<not> (pr \<and> bundle_Image b \<in> nch) \<and> \<not> (imgs = {} \<or> bundle_Image b \<in> imgs) \<and> b' = b \<and> w' = w)"
  using assms by (auto simp: process_bundle_def prune_props_filter split: if_splits)

lemma non_objects_idem: "non_objects (non_objects ps) = non_objects ps"
  by (simp add: non_objects_def)

text \<open>
  C3. Whenever the rewrite of a bundle succeeds, whatever the order of its property list,
  the properties that are not bundle objects are the same afterwards, in the same order.
  A pruned bundle keeps exactly those. An inlined bundle keeps them first and then has
  one new property per object read from the image, in the order of the objects, each
  built from the marshalled bytes of its object by the builder for inline data; given
  that the builder tags its result as a bundle object whose payload decodes to inline
  data, none of the new properties is a file reference.
\<close>

theorem rewrite_keeps_non_objects:
  assumes run: "process_bundle E pr nch imgs rootDir path b w = (Inr b', w')"
    and codec: "\<forall>d. Type (MustBuildBundleObjectData E d) = TypeBundleObject \<and>
                    Unmarshal E (Value (MustBuildBundleObjectData E d)) = Inr (ObjectData d)"
  shows "non_objects (Properties b') = non_objects (Properties b) \<and>
         (pr \<and> bundle_Image b \<in> nch \<longrightarrow> Properties b' = non_objects (Properties b)) \<and>
         (\<not> (pr \<and> bundle_Image b \<in> nch) \<and> (imgs = {} \<or> bundle_Image b \<in> imgs) \<longrightarrow>
            (\<exists>tmpDir objects jsons.
               NewImageInput E (bundle_Image b) tmpDir = Inr objects \<and>
               map (Marshal E) objects = map Inr jsons \<and>
               Properties b' = non_objects (Properties b) @ map (MustBuildBundleObjectData E) jsons \<and>
               (\<forall>q \<in> set (map (MustBuildBundleObjectData E) jsons).
                  Type q = TypeBundleObject \<and> (\<exists>d. Unmarshal E (Value q) = Inr (ObjectData d)))))"
proof -
  have built: "non_objects (map (MustBuildBundleObjectData E) js) = []" for js
    using codec by (simp add: non_objects_def)
  from process_bundle_cases [OF run] consider
      (pruned) "pr \<and> bundle_Image b \<in> nch" "b' = b\<lparr>Properties := non_objects (Properties b)\<rparr>"
    | (inlined) "\<not> (pr \<and> bundle_Image b \<in> nch)" "inline_bundle E rootDir path b w = (Inr b', w')"
    | (untouched) "\<not> (pr \<and> bundle_Image b \<in> nch)" "\<not> (imgs = {} \<or> bundle_Image b \<in> imgs)" "b' = b"
    by blast
  then show ?thesis
  proof cases
    case pruned
    then show ?thesis by (simp add: non_objects_idem)
  next
    case inlined
    note no = inlined(1) and inl = inlined(2)
    from inline_bundle_success [OF inl] obtain tmpDir objects jsons where
      a: "NewImageInput E (bundle_Image b) tmpDir = Inr objects"
         "map (Marshal E) objects = map Inr jsons"
         "b' = b\<lparr>Properties := non_objects (Properties b) @ map (MustBuildBundleObjectData E) jsons\<rparr>"
      by blast
    have p: "Properties b' = non_objects (Properties b) @ map (MustBuildBundleObjectData E) jsons"
      using a(3) by simp
    have "non_objects (Properties b') = non_objects (Properties b)"
      unfolding p using built [of jsons] by (simp add: non_objects_def)
    moreover have "\<forall>q \<in> set (map (MustBuildBundleObjectData E) jsons).
        Type q = TypeBundleObject \<and> (\<exists>d. Unmarshal E (Value q) = Inr (ObjectData d))"
      using codec by auto
    ultimately show ?thesis using no a(1,2) p by blast
  next
    case untouched
    then show ?thesis by blast
  qed
qed

lemma demo_inline_v2:
  "inline_bundle demo_env ''catalog'' ''index.yaml'' bundle_v2 world0
   = (Inr (bundle_v2\<lparr>Properties := [p_package, p_channel,
         \<lparr>Type = ''olm.bundle.object'', Value = ''data:A''\<rparr>,
         \<lparr>Type = ''olm.bundle.object'', Value = ''data:B''\<rparr>]\<rparr>),
      \<lparr>files = [''catalog/index.yaml'', ''catalog/objects/v1.yaml'', ''/tmp/declcfg-inline-bundles-1''],
       pulls = [''img2''], written = []\<rparr>)"
  by (simp add: inline_bundle_def pull_image_def demo_env_def Pull_def MkdirTemp_def world0_def
      bundle_v2_def p_package_def p_channel_def p_ref_def TypeBundleObject_def upt_rec
      demo_unmarshal_def RemoveAll_def demo_join_def eval_nat_numeral Let_def)

lemma demo_codec:
  "\<forall>d. Type (MustBuildBundleObjectData demo_env d) = TypeBundleObject \<and>
       Unmarshal demo_env (Value (MustBuildBundleObjectData demo_env d)) = Inr (ObjectData d)"
  by (simp add: demo_env_def demo_unmarshal_def)

theorem rewrite_keeps_non_objects_witness:
  "process_bundle demo_env True {''img1''} {} ''catalog'' ''index.yaml'' bundle_v2 world0
     = (Inr (bundle_v2\<lparr>Properties := [p_package, p_channel,
         \<lparr>Type = ''olm.bundle.object'', Value = ''data:A''\<rparr>,
         \<lparr>Type = ''olm.bundle.object'', Value = ''data:B''\<rparr>]\<rparr>),
        \<lparr>files = [''catalog/index.yaml'', ''catalog/objects/v1.yaml'', ''/tmp/declcfg-inline-bundles-1''],
         pulls = [''img2''], written = []\<rparr>) \<and>
   (\<forall>d. Type (MustBuildBundleObjectData demo_env d) = TypeBundleObject \<and>
        Unmarshal demo_env (Value (MustBuildBundleObjectData demo_env d)) = Inr (ObjectData d)) \<and>
   non_objects [p_package, p_channel,
         \<lparr>Type = ''olm.bundle.object'', Value = ''data:A''\<rparr>,
         \<lparr>Type = ''olm.bundle.object'', Value = ''data:B''\<rparr>] = non_objects (Properties bundle_v2)"
proof -
  have r: "process_bundle demo_env True {''img1''} {} ''catalog'' ''index.yaml'' bundle_v2 world0
     = (Inr (bundle_v2\<lparr>Properties := [p_package, p_channel,
         \<lparr>Type = ''olm.bundle.object'', Value = ''data:A''\<rparr>,
         \<lparr>Type = ''olm.bundle.object'', Value = ''data:B''\<rparr>]\<rparr>),
        \<lparr>files = [''catalog/index.yaml'', ''catalog/objects/v1.yaml'', ''/tmp/declcfg-inline-bundles-1''],
         pulls = [''img2''], written = []\<rparr>)"
    using demo_inline_v2 by (simp add: process_bundle_def bundle_v2_def)
  show ?thesis
    using rewrite_keeps_non_objects [OF r demo_codec] r demo_codec by simp
qed

section \<open>Pruned and inlined bundles\<close>

lemma demo_prune_v1:
  "process_bundle demo_env True {''img1''} imgs ''catalog'' path bundle_v1 world0
     = (Inr (bundle_v1\<lparr>Properties := [p_package, p_channel]\<rparr>), world0)"
proof -
  have i: "bundle_Image bundle_v1 \<in> {''img1''}" by (simp add: bundle_v1_def)
  have n: "non_objects (Properties bundle_v1) = [p_package, p_channel]"
    by (simp add: bundle_v1_def non_objects_def p_package_def p_channel_def p_ref_def
        TypeBundleObject_def)
  show ?thesis
    using process_bundle_prune [OF TrueI i, of demo_env imgs "''catalog''" path world0] n
    by simp
qed

text \<open>
  C5. A bundle that is to be pruned (pruning is requested and its image is a known
  non-head) and that also is an inline target (its image is requested, or nothing is) is
  pruned and not inlined: its slot gets the properties that are not bundle objects, no
  image is pulled and the rest of the state is as before.
\<close>

theorem prune_wins:
  assumes "pr" "bundle_Image b \<in> nch" "imgs = {} \<or> bundle_Image b \<in> imgs"
  shows "process_bundle E pr nch imgs rootDir path b w
           = (Inr (b\<lparr>Properties := non_objects (Properties b)\<rparr>), w) \<and>
         pulls (snd (process_bundle E pr nch imgs rootDir path b w)) = pulls w \<and>
         (\<forall>q \<in> set (non_objects (Properties b)). Type q \<noteq> TypeBundleObject)"
  using assms by (simp add: process_bundle_prune non_objects_def)

theorem prune_wins_witness:
  "bundle_Image bundle_v1 \<in> {''img1''} \<and> ({''img1'', ''img2''} = {} \<or> bundle_Image bundle_v1 \<in> {''img1'', ''img2''}) \<and>
   process_bundle demo_env True {''img1''} {''img1'', ''img2''} ''catalog'' ''index.yaml'' bundle_v1 world0
     = (Inr (bundle_v1\<lparr>Properties := [p_package, p_channel]\<rparr>), world0) \<and>
   pulls (snd (process_bundle demo_env True {''img1''} {''img1'', ''img2''} ''catalog'' ''index.yaml'' bundle_v1 world0)) = []"
proof -
  have a: "bundle_Image bundle_v1 \<in> {''img1''}" by (simp add: bundle_v1_def)
  have b: "{''img1'', ''img2''} = {} \<or> bundle_Image bundle_v1 \<in> {''img1'', ''img2''}"
    by (simp add: bundle_v1_def)
  have n: "non_objects (Properties bundle_v1) = [p_package, p_channel]"
    by (simp add: bundle_v1_def non_objects_def p_package_def p_channel_def p_ref_def
        TypeBundleObject_def)
  show ?thesis
    using prune_wins [OF TrueI a b, of demo_env "''catalog''" "''index.yaml''" world0] a b n
    by (simp add: world0_def)
qed

text \<open>
  C4, as stated, fails: the pruned bundle of the example scenario still carries its legacy
  blob.
\<close>

theorem legacy_blob_not_cleared:
  "process_bundle demo_env True {''img1''} {} ''catalog'' ''index.yaml'' bundle_v1 world0
     = (Inr (bundle_v1\<lparr>Properties := [p_package, p_channel]\<rparr>), world0) \<and>
   CsvJSON (bundle_v1\<lparr>Properties := [p_package, p_channel]\<rparr>) = ''old-csv'' \<and>
   CsvJSON (bundle_v1\<lparr>Properties := [p_package, p_channel]\<rparr>) \<noteq> []"
  using demo_prune_v1 [of "{}"] by (simp add: bundle_v1_def)

text \<open>
  C4, amended. Neither decision touches the legacy fields: a bundle that was pruned or
  inlined has the \<open>CsvJSON\<close> blob and the \<open>Objects\<close> list it had before; only the
  property list is rewritten.
\<close>

theorem legacy_fields_unchanged:
  assumes "process_bundle E pr nch imgs rootDir path b w = (Inr b', w')"
  shows "CsvJSON b' = CsvJSON b \<and> Objects b' = Objects b"
proof -
  from process_bundle_cases [OF assms] consider
      "b' = b\<lparr>Properties := non_objects (Properties b)\<rparr>"
    | "inline_bundle E rootDir path b w = (Inr b', w')"
    | "b' = b"
    by blast
  then show ?thesis
  proof cases
    case 2
    from inline_bundle_success [OF 2] show ?thesis by auto
  qed simp_all
qed

theorem legacy_fields_unchanged_witness:
  "process_bundle demo_env False {} {} ''catalog'' ''index.yaml'' bundle_v2 world0
     = (Inr (bundle_v2\<lparr>Properties := [p_package, p_channel,
         \<lparr>Type = ''olm.bundle.object'', Value = ''data:A''\<rparr>,
         \<lparr>Type = ''olm.bundle.object'', Value = ''data:B''\<rparr>]\<rparr>),
        \<lparr>files = [''catalog/index.yaml'', ''catalog/objects/v1.yaml'', ''/tmp/declcfg-inline-bundles-1''],
         pulls = [''img2''], written = []\<rparr>) \<and>
   CsvJSON (bundle_v2\<lparr>Properties := [p_package, p_channel,
         \<lparr>Type = ''olm.bundle.object'', Value = ''data:A''\<rparr>,
         \<lparr>Type = ''olm.bundle.object'', Value = ''data:B''\<rparr>]\<rparr>) = CsvJSON bundle_v2"
proof -
  have r: "process_bundle demo_env False {} {} ''catalog'' ''index.yaml'' bundle_v2 world0
     = (Inr (bundle_v2\<lparr>Properties := [p_package, p_channel,
         \<lparr>Type = ''olm.bundle.object'', Value = ''data:A''\<rparr>,
         \<lparr>Type = ''olm.bundle.object'', Value = ''data:B''\<rparr>]\<rparr>),
        \<lparr>files = [''catalog/index.yaml'', ''catalog/objects/v1.yaml'', ''/tmp/declcfg-inline-bundles-1''],
         pulls = [''img2''], written = []\<rparr>)"
    using demo_inline_v2 by (simp add: process_bundle_def)
  show ?thesis
    using legacy_fields_unchanged [OF r] r by simp
qed

text \<open>
  C2. The pruned bundle of the example scenario has a bundle-object property that refers
  to the file \<open>catalog/objects/v1.yaml\<close>. Pruning drops the property and leaves the
  state as it was: the file is still on disk. Inlining the other bundle does delete the
  file that its bundle-object property refers to.
\<close>

theorem prune_leaves_referenced_file:
  "Properties bundle_v1 = [p_package, p_ref ''objects/v1.yaml'', p_channel] \<and>
   Type (p_ref ''objects/v1.yaml'') = TypeBundleObject \<and>
   Unmarshal demo_env (Value (p_ref ''objects/v1.yaml'')) = Inr (ObjectRef ''objects/v1.yaml'') \<and>
   filepath_Join demo_env [''catalog'', filepath_Dir demo_env ''index.yaml'', ''objects/v1.yaml'']
     = ''catalog/objects/v1.yaml'' \<and>
   process_bundle demo_env True {''img1''} {''img1''} ''catalog'' ''index.yaml'' bundle_v1 world0
     = (Inr (bundle_v1\<lparr>Properties := [p_package, p_channel]\<rparr>), world0) \<and>
   ''catalog/objects/v1.yaml'' \<in> set (files world0) \<and>
   ''catalog/objects/v2.yaml'' \<in> set (files world0) \<and>
   ''catalog/objects/v2.yaml''
     \<notin> set (files (snd (inline_bundle demo_env ''catalog'' ''index.yaml'' bundle_v2 world0)))"
  using demo_prune_v1 [of "{''img1''}"] demo_inline_v2
  by (simp add: bundle_v1_def p_ref_def TypeBundleObject_def demo_env_def demo_unmarshal_def
      demo_join_def world0_def)

text \<open>
  C7. The scratch directory that \<open>os.MkdirTemp\<close> creates for the inlined bundle of
  the example scenario is on disk when the operation ends, both when it succeeds and
  when the unpacking fails.
\<close>

theorem scratch_dir_left_behind:
  "fst (inline_bundle demo_env ''catalog'' ''index.yaml'' bundle_v2 world0)
     = Inr (bundle_v2\<lparr>Properties := [p_package, p_channel,
         \<lparr>Type = ''olm.bundle.object'', Value = ''data:A''\<rparr>,
         \<lparr>Type = ''olm.bundle.object'', Value = ''data:B''\<rparr>]\<rparr>) \<and>
   ''/tmp/declcfg-inline-bundles-1'' \<notin> set (files world0) \<and>
   ''/tmp/declcfg-inline-bundles-1''
     \<in> set (files (snd (inline_bundle demo_env ''catalog'' ''index.yaml'' bundle_v2 world0))) \<and>
   inline_bundle demo_env_unpack_fails ''catalog'' ''index.yaml'' bundle_v2 world0
     = (Inl ''unpack failed'', world0\<lparr>files := files world0 @ [''/tmp/declcfg-inline-bundles-1''],
                                       pulls := [''img2'']\<rparr>)"
proof -
  have "inline_bundle demo_env_unpack_fails ''catalog'' ''index.yaml'' bundle_v2 world0
     = (Inl ''unpack failed'', world0\<lparr>files := files world0 @ [''/tmp/declcfg-inline-bundles-1''],
                                       pulls := [''img2'']\<rparr>)"
    by (simp add: inline_bundle_def pull_image_def demo_env_unpack_fails_def demo_env_def Pull_def
        MkdirTemp_def world0_def bundle_v2_def eval_nat_numeral Let_def)
  then show ?thesis
    using demo_inline_v2 by (simp add: world0_def)
qed

section \<open>Pulling an image\<close>

text \<open>\<open>MatchString\<close> is containment of the literal.\<close>

lemma MatchString_iff: "MatchString pat s \<longleftrightarrow> (\<exists>a b. s = a @ pat @ b)"
proof (induction s)
  case Nil
  then show ?case by auto
next
  case (Cons c cs)
  show ?case
  proof
    assume "MatchString pat (c # cs)"
    then consider "prefix pat (c # cs)" | "MatchString pat cs" by auto
    then show "\<exists>a b. c # cs = a @ pat @ b"
    proof cases
      case 1
      then obtain b where "c # cs = pat @ b" by (auto simp: prefix_def)
      then have "c # cs = [] @ pat @ b" by simp
      then show ?thesis by blast
    next
      case 2
      with Cons.IH obtain a b where "cs = a @ pat @ b" by blast
      then have "c # cs = (c # a) @ pat @ b" by simp
      then show ?thesis by blast
    qed
  next
    assume "\<exists>a b. c # cs = a @ pat @ b"
    then obtain a b where ab: "c # cs = a @ pat @ b" by blast
    show "MatchString pat (c # cs)"
    proof (cases a)
      case Nil
      with ab have "prefix pat (c # cs)" by (simp add: prefix_def)
      then show ?thesis by simp
    next
      case (Cons x xs)
      with ab have "cs = xs @ pat @ b" by simp
      with Cons.IH show ?thesis by auto
    qed
  qed
qed

text \<open>After \<open>k\<close> retryable failures the budget is down by \<open>k\<close> and \<open>k\<close> pulls are recorded.\<close>

lemma OnError_retries:
  assumes "\<forall>i<k. \<exists>err. Pull_result E (length (pulls w) + i) imgRef = Some err \<and> retriable err"
    and "k < n"
  shows "OnError n retriable (Pull E imgRef) w
           = OnError (n - k) retriable (Pull E imgRef) (w\<lparr>pulls := pulls w @ replicate k imgRef\<rparr>)"
  using assms
proof (induction k arbitrary: n w)
  case 0
  then show ?case by simp
next
  case (Suc k)
  from Suc.prems(2) obtain n' where n: "n = Suc n'" and n': "k < n'" "n' \<noteq> 0"
    by (cases n) auto
  from Suc.prems(1) obtain err where
    first: "Pull_result E (length (pulls w)) imgRef = Some err" "retriable err"
    by force
  let ?w = "w\<lparr>pulls := pulls w @ [imgRef]\<rparr>"
  have rest: "\<forall>i<k. \<exists>err. Pull_result E (length (pulls ?w) + i) imgRef = Some err \<and> retriable err"
  proof (intro allI impI)
    fix i assume "i < k"
    then have "Suc i < Suc k" by simp
    with Suc.prems(1) have "\<exists>err. Pull_result E (length (pulls w) + Suc i) imgRef = Some err \<and> retriable err"
      by blast
    then show "\<exists>err. Pull_result E (length (pulls ?w) + i) imgRef = Some err \<and> retriable err"
      by simp
  qed
  have "OnError n retriable (Pull E imgRef) w = OnError n' retriable (Pull E imgRef) ?w"
    unfolding n using first n'(2) by (simp add: Pull_def)
  also have "\<dots> = OnError (n' - k) retriable (Pull E imgRef) (?w\<lparr>pulls := pulls ?w @ replicate k imgRef\<rparr>)"
    by (rule Suc.IH [OF rest n'(1)])
  also have "?w\<lparr>pulls := pulls ?w @ replicate k imgRef\<rparr> = w\<lparr>pulls := pulls w @ replicate (Suc k) imgRef\<rparr>"
    by (simp add: replicate_append_same)
  finally show ?case by (simp add: n)
qed


lemma retriable_iff: "retriable e \<longleftrightarrow> \<not> MatchString nonRetryableRegex e"
  by (simp add: retriable_def)

lemma pull_image_permanent:
  assumes "k < Steps E"
    and "\<forall>i<k. \<exists>e. Pull_result E (length (pulls w) + i) imgRef = Some e \<and> \<not> MatchString nonRetryableRegex e"
    and "Pull_result E (length (pulls w) + k) imgRef = Some err"
    and "MatchString nonRetryableRegex err"
  shows "pull_image E imgRef w = (Some err, w\<lparr>pulls := pulls w @ replicate (Suc k) imgRef\<rparr>)"
proof -
  let ?w = "w\<lparr>pulls := pulls w @ replicate k imgRef\<rparr>"
  have pre: "\<forall>i<k. \<exists>e. Pull_result E (length (pulls w) + i) imgRef = Some e \<and> retriable e"
    using assms(2) unfolding retriable_iff by blast
  obtain m where m: "Steps E - k = Suc m"
    using assms(1) by (cases "Steps E - k") auto
  have "pull_image E imgRef w = OnError (Suc m) retriable (Pull E imgRef) ?w"
    unfolding pull_image_def using OnError_retries [OF pre assms(1)] m by simp
  also have "\<dots> = (Some err, ?w\<lparr>pulls := pulls ?w @ [imgRef]\<rparr>)"
    using assms(3,4) by (simp add: Pull_def retriable_def)
  also have "?w\<lparr>pulls := pulls ?w @ [imgRef]\<rparr> = w\<lparr>pulls := pulls w @ replicate (Suc k) imgRef\<rparr>"
    by (simp add: replicate_append_same)
  finally show ?thesis .
qed

lemma pull_image_exhausted:
  assumes "0 < Steps E"
    and "\<forall>i<Steps E. \<exists>e. Pull_result E (length (pulls w) + i) imgRef = Some e \<and> \<not> MatchString nonRetryableRegex e"
  shows "\<exists>err. Pull_result E (length (pulls w) + (Steps E - 1)) imgRef = Some err \<and>
           pull_image E imgRef w = (Some err, w\<lparr>pulls := pulls w @ replicate (Steps E) imgRef\<rparr>)"
proof -
  obtain k where k: "Steps E = Suc k"
    using assms(1) by (cases "Steps E") auto
  let ?w = "w\<lparr>pulls := pulls w @ replicate k imgRef\<rparr>"
  have pre: "\<forall>i<k. \<exists>e. Pull_result E (length (pulls w) + i) imgRef = Some e \<and> retriable e"
    using assms(2) k unfolding retriable_iff by (metis less_SucI)
  from assms(2) k obtain err where
    last: "Pull_result E (length (pulls w) + k) imgRef = Some err" "\<not> MatchString nonRetryableRegex err"
    by auto
  have kk: "k < Steps E" using k by simp
  have "pull_image E imgRef w = OnError (Suc 0) retriable (Pull E imgRef) ?w"
    unfolding pull_image_def using OnError_retries [OF pre kk] k by simp
  also have "\<dots> = (Some err, ?w\<lparr>pulls := pulls ?w @ [imgRef]\<rparr>)"
    using last by (simp add: Pull_def retriable_def)
  also have "?w\<lparr>pulls := pulls ?w @ [imgRef]\<rparr> = w\<lparr>pulls := pulls w @ replicate (Steps E) imgRef\<rparr>"
    using k by (simp add: replicate_append_same)
  finally show ?thesis using last(1) k by simp
qed

text \<open>
  C6. With a positive attempt budget: when a pull fails with a message that matches the
  permanent-failure pattern, after any number of failures that do not match it, no
  further pull is made and the task fails at once with that error; if the first failure
  matches, exactly one pull is made. When every pull of the budget fails with a message
  that does not match, the pull is made as many times as the budget allows and the task
  then fails with the last error.
\<close>

theorem pull_retry_policy:
  assumes "0 < Steps E"
  shows "(\<forall>k err. k < Steps E \<and>
            (\<forall>i<k. \<exists>e. Pull_result E (length (pulls w) + i) (bundle_Image b) = Some e \<and>
                         \<not> MatchString nonRetryableRegex e) \<and>
            Pull_result E (length (pulls w) + k) (bundle_Image b) = Some err \<and>
            MatchString nonRetryableRegex err \<longrightarrow>
            inline_bundle E rootDir path b w =
              (Inl (''pull image '' @ fmt_q E (bundle_Image b) @ '': '' @ err),
               w\<lparr>pulls := pulls w @ replicate (Suc k) (bundle_Image b)\<rparr>)) \<and>
         ((\<forall>i<Steps E. \<exists>e. Pull_result E (length (pulls w) + i) (bundle_Image b) = Some e \<and>
                         \<not> MatchString nonRetryableRegex e) \<longrightarrow>
            (\<exists>err. Pull_result E (length (pulls w) + (Steps E - 1)) (bundle_Image b) = Some err \<and>
               inline_bundle E rootDir path b w =
                 (Inl (''pull image '' @ fmt_q E (bundle_Image b) @ '': '' @ err),
                  w\<lparr>pulls := pulls w @ replicate (Steps E) (bundle_Image b)\<rparr>)))"
proof (intro conjI allI impI)
  fix k err
  assume a: "k < Steps E \<and>
            (\<forall>i<k. \<exists>e. Pull_result E (length (pulls w) + i) (bundle_Image b) = Some e \<and>
                         \<not> MatchString nonRetryableRegex e) \<and>
            Pull_result E (length (pulls w) + k) (bundle_Image b) = Some err \<and>
            MatchString nonRetryableRegex err"
  then have "pull_image E (bundle_Image b) w
      = (Some err, w\<lparr>pulls := pulls w @ replicate (Suc k) (bundle_Image b)\<rparr>)"
    using pull_image_permanent [of k E w "bundle_Image b" err] by blast
  then show "inline_bundle E rootDir path b w =
              (Inl (''pull image '' @ fmt_q E (bundle_Image b) @ '': '' @ err),
               w\<lparr>pulls := pulls w @ replicate (Suc k) (bundle_Image b)\<rparr>)"
    by (simp add: inline_bundle_def Let_def)
next
  assume "\<forall>i<Steps E. \<exists>e. Pull_result E (length (pulls w) + i) (bundle_Image b) = Some e \<and>
                         \<not> MatchString nonRetryableRegex e"
  from pull_image_exhausted [OF assms this] obtain err where
    e: "Pull_result E (length (pulls w) + (Steps E - 1)) (bundle_Image b) = Some err"
       "pull_image E (bundle_Image b) w
          = (Some err, w\<lparr>pulls := pulls w @ replicate (Steps E) (bundle_Image b)\<rparr>)"
    by blast
  have "inline_bundle E rootDir path b w =
                 (Inl (''pull image '' @ fmt_q E (bundle_Image b) @ '': '' @ err),
                  w\<lparr>pulls := pulls w @ replicate (Steps E) (bundle_Image b)\<rparr>)"
    using e(2) by (simp add: inline_bundle_def Let_def)
  with e(1) show "\<exists>err. Pull_result E (length (pulls w) + (Steps E - 1)) (bundle_Image b) = Some err \<and>
               inline_bundle E rootDir path b w =
                 (Inl (''pull image '' @ fmt_q E (bundle_Image b) @ '': '' @ err),
                  w\<lparr>pulls := pulls w @ replicate (Steps E) (bundle_Image b)\<rparr>)"
    by blast
qed

theorem pull_retry_policy_witness:
  "0 < Steps demo_env_unresolved \<and> 0 < Steps demo_env_flaky \<and>
   MatchString nonRetryableRegex ''error resolving name: no such host'' \<and>
   \<not> MatchString nonRetryableRegex ''connection reset'' \<and>
   inline_bundle demo_env_unresolved ''catalog'' ''index.yaml'' bundle_v2 world0 =
     (Inl ''pull image img2: error resolving name: no such host'', world0\<lparr>pulls := [''img2'']\<rparr>) \<and>
   inline_bundle demo_env_flaky ''catalog'' ''index.yaml'' bundle_v2 world0 =
     (Inl ''pull image img2: connection reset'',
      world0\<lparr>pulls := [''img2'', ''img2'', ''img2'', ''img2'', ''img2'']\<rparr>)"
proof -
  have s1: "0 < Steps demo_env_unresolved" and s2: "0 < Steps demo_env_flaky"
    by (simp_all add: demo_env_unresolved_def demo_env_flaky_def demo_env_def)
  have m1: "MatchString nonRetryableRegex ''error resolving name: no such host''"
    by (simp add: nonRetryableRegex_def)
  have m2: "\<not> MatchString nonRetryableRegex ''connection reset''"
    by (simp add: nonRetryableRegex_def)
  have p1: "Pull_result demo_env_unresolved n r = Some ''error resolving name: no such host''" for n r
    by (simp add: demo_env_unresolved_def)
  have p2: "Pull_result demo_env_flaky n r = Some ''connection reset''" for n r
    by (simp add: demo_env_flaky_def)
  have st: "Steps demo_env_flaky = 5" "fmt_q demo_env_flaky = (\<lambda>s. s)"
    "fmt_q demo_env_unresolved = (\<lambda>s. s)"
    by (simp_all add: demo_env_unresolved_def demo_env_flaky_def demo_env_def)
  have img: "bundle_Image bundle_v2 = ''img2''" by (simp add: bundle_v2_def)
  have prem1: "0 < Steps demo_env_unresolved \<and>
      (\<forall>i<0. \<exists>e. Pull_result demo_env_unresolved (length (pulls world0) + i) (bundle_Image bundle_v2) = Some e \<and>
                  \<not> MatchString nonRetryableRegex e) \<and>
      Pull_result demo_env_unresolved (length (pulls world0) + 0) (bundle_Image bundle_v2)
        = Some ''error resolving name: no such host'' \<and>
      MatchString nonRetryableRegex ''error resolving name: no such host''"
    using s1 m1 p1 by blast
  have prem2: "\<forall>i<Steps demo_env_flaky.
      \<exists>e. Pull_result demo_env_flaky (length (pulls world0) + i) (bundle_Image bundle_v2) = Some e \<and>
          \<not> MatchString nonRetryableRegex e"
    using m2 p2 by blast
  have a: "inline_bundle demo_env_unresolved ''catalog'' ''index.yaml'' bundle_v2 world0 =
     (Inl ''pull image img2: error resolving name: no such host'', world0\<lparr>pulls := [''img2'']\<rparr>)"
    using pull_retry_policy [OF s1, of world0 bundle_v2 "''catalog''" "''index.yaml''",
        THEN conjunct1, rule_format, OF prem1]
    by (simp add: st img world0_def)
  have b: "inline_bundle demo_env_flaky ''catalog'' ''index.yaml'' bundle_v2 world0 =
     (Inl ''pull image img2: connection reset'',
      world0\<lparr>pulls := [''img2'', ''img2'', ''img2'', ''img2'', ''img2'']\<rparr>)"
    using pull_retry_policy [OF s2, of world0 bundle_v2 "''catalog''" "''index.yaml''",
        THEN conjunct2, THEN mp, OF prem2]
    by (simp add: p2 st img world0_def eval_nat_numeral)
  show ?thesis using s1 s2 m1 m2 a b by simp
qed

section \<open>Writing a file back\<close>

text \<open>The extension is a suffix of the path, and it is \<open>.yaml\<close> exactly for the paths that end so.\<close>

lemma ext_scan_suffix:
  "ext_scan cs acc \<noteq> [] \<Longrightarrow> \<exists>n<length cs. ext_scan cs acc = rev (take (Suc n) cs) @ acc"
proof (induction cs arbitrary: acc)
  case Nil
  then show ?case by simp
next
  case (Cons c cs)
  show ?case
  proof (cases "c = CHR ''/'' \<or> c = CHR ''.''")
    case True
    with Cons.prems have "ext_scan (c # cs) acc = rev (take (Suc 0) (c # cs)) @ acc"
      by (auto split: if_splits)
    then show ?thesis by blast
  next
    case False
    with Cons.prems have ne: "ext_scan cs (c # acc) \<noteq> []" by simp
    from Cons.IH [OF ne] obtain n where
      n: "n < length cs" "ext_scan cs (c # acc) = rev (take (Suc n) cs) @ c # acc"
      by blast
    have "ext_scan (c # cs) acc = rev (take (Suc (Suc n)) (c # cs)) @ acc"
      using False n(2) by simp
    moreover have "Suc n < length (c # cs)" using n(1) by simp
    ultimately show ?thesis by blast
  qed
qed

lemma Ext_suffix: "suffix (Ext path) path"
proof (cases "Ext path = []")
  case True
  then show ?thesis by simp
next
  case False
  then obtain n where n: "n < length path" "Ext path = rev (take (Suc n) (rev path))"
    using ext_scan_suffix [of "rev path" "[]"] by (auto simp: Ext_def)
  have "rev (take (Suc n) (rev path)) = drop (length path - Suc n) path"
    by (simp add: take_rev)
  then show ?thesis
    using n(2) by (simp add: suffix_drop)
qed

lemma Ext_yaml: "Ext path = ''.yaml'' \<longleftrightarrow> suffix ''.yaml'' path"
proof
  assume "Ext path = ''.yaml''"
  then show "suffix ''.yaml'' path" using Ext_suffix [of path] by simp
next
  assume "suffix ''.yaml'' path"
  then obtain stem where "path = stem @ ''.yaml''" by (auto simp: suffix_def)
  then show "Ext path = ''.yaml''" by (simp add: Ext_def)
qed

text \<open>
  C8, as stated, fails: the file \<open>index.yml\<close> of the example catalog, touched by a
  pruned bundle, is written back as JSON.
\<close>

theorem yml_written_as_JSON:
  "suffix ''.yml'' ''index.yml'' \<and>
   file_task demo_env True {''img1''} {''img1''} ''catalog'' ''index.yml'' demo_cfg world0
     = (None, world0\<lparr>written :=
          [(''catalog/index.yml'', JSON,
            \<lparr>cfg_Bundles = [bundle_v1\<lparr>Properties := [p_package, p_channel]\<rparr>]\<rparr>)]\<rparr>)"
proof -
  have e: "Ext ''index.yml'' = ''.yml''" by (simp add: Ext_def)
  have s: "suffix ''.yml'' ''index.yml''" by (simp add: suffix_def)
  have o: "OpenFile_result demo_env f = None" "Write_result demo_env fmt c = None"
    "filepath_Join demo_env [''catalog'', ''index.yml''] = ''catalog/index.yml''" for f fmt c
    by (simp_all add: demo_env_def demo_join_def)
  have b: "process_bundles demo_env True {''img1''} {''img1''} ''catalog'' ''index.yml''
             (cfg_Bundles demo_cfg) world0
           = (Inr [bundle_v1\<lparr>Properties := [p_package, p_channel]\<rparr>], world0)"
    by (simp add: demo_cfg_def demo_prune_v1)
  show ?thesis
    using s by (simp add: file_task_def b e o Let_def) (simp add: demo_cfg_def world0_def)
qed

text \<open>
  C8, amended. A catalog file whose task succeeds is written once, to the path it was
  read from below the root directory, with its rewritten bundles: as YAML exactly when
  its path ends in \<open>.yaml\<close>, and as JSON otherwise (a path ending in \<open>.yml\<close>
  included).
\<close>

theorem written_format_by_extension:
  assumes "file_task E pr nch imgs rootDir path fcfg w = (None, w')"
  shows "\<exists>bs w1. process_bundles E pr nch imgs rootDir path (cfg_Bundles fcfg) w = (Inr bs, w1) \<and>
           w' = w1\<lparr>written := written w1 @
                  [(filepath_Join E [rootDir, path],
                    if suffix ''.yaml'' path then YAML else JSON,
                    fcfg\<lparr>cfg_Bundles := bs\<rparr>)]\<rparr>"
  using assms unfolding file_task_def Let_def Ext_yaml
  by (auto split: prod.splits sum.splits option.splits if_splits)

theorem written_format_by_extension_witness:
  "file_task demo_env True {''img1''} {} ''catalog'' ''index.yaml'' demo_cfg world0
     = (None, world0\<lparr>written :=
          [(''catalog/index.yaml'', YAML,
            \<lparr>cfg_Bundles = [bundle_v1\<lparr>Properties := [p_package, p_channel]\<rparr>]\<rparr>)]\<rparr>) \<and>
   suffix ''.yaml'' ''index.yaml''"
proof -
  have e: "Ext ''index.yaml'' = ''.yaml''" by (simp add: Ext_def)
  have s: "suffix ''.yaml'' ''index.yaml''" by (simp add: suffix_def)
  have o: "OpenFile_result demo_env f = None" "Write_result demo_env fmt c = None"
    "filepath_Join demo_env [''catalog'', ''index.yaml''] = ''catalog/index.yaml''" for f fmt c
    by (simp_all add: demo_env_def demo_join_def)
  have r: "file_task demo_env True {''img1''} {} ''catalog'' ''index.yaml'' demo_cfg world0
     = (None, world0\<lparr>written :=
          [(''catalog/index.yaml'', YAML,
            \<lparr>cfg_Bundles = [bundle_v1\<lparr>Properties := [p_package, p_channel]\<rparr>]\<rparr>)]\<rparr>)"
  proof -
    have b: "process_bundles demo_env True {''img1''} {} ''catalog'' ''index.yaml''
               (cfg_Bundles demo_cfg) world0
             = (Inr [bundle_v1\<lparr>Properties := [p_package, p_channel]\<rparr>], world0)"
      by (simp add: demo_cfg_def demo_prune_v1)
    show ?thesis
      by (simp add: file_task_def b e o Let_def) (simp add: demo_cfg_def world0_def)
  qed
  show ?thesis
    using written_format_by_extension [OF r] r s by simp
qed

section \<open>The classification of the bundles\<close>

lemma Head_by_candidates:
  "Head c =
     (if length (candidates c) = 0 then Inl ''no channel head found in graph''
      else if length (candidates c) > 1 then
        Inl (''multiple channel heads found in graph: '' @ Join (map Name (candidates c)) '', '')
      else Inr (hd (candidates c)))"
  by (simp add: Head_def Let_def heads_candidates)

lemma fold_union:
  assumes "\<And>x S. f x S = S \<union> g x"
  shows "fold f xs S = S \<union> (\<Union>x \<in> set xs. g x)"
  by (induction xs arbitrary: S) (auto simp: assms)

lemma fold_insert_images:
  "fold (\<lambda>b S. insert (Image b) S) bs S = S \<union> Image ` set bs"
  by (induction bs arbitrary: S) auto

lemma fold_channels_images:
  "fold (\<lambda>ch S. fold (\<lambda>b S. insert (Image b) S) (map snd (Bundles ch)) S) chs S
     = S \<union> (\<Union>ch \<in> set chs. Image ` snd ` set (Bundles ch))"
  by (rule fold_union) (simp add: fold_insert_images)

lemma fold_packages_images:
  "fold (\<lambda>pkg S. fold (\<lambda>ch S. fold (\<lambda>b S. insert (Image b) S) (map snd (Bundles ch)) S)
                    (map snd (Channels pkg)) S) pkgs S
     = S \<union> (\<Union>pkg \<in> set pkgs. \<Union>ch \<in> set (map snd (Channels pkg)). Image ` snd ` set (Bundles ch))"
  by (rule fold_union) (rule fold_channels_images)

lemma insert_images_eq: "insert_images m = model_images m"
  unfolding insert_images_def model_images_def model_channels_def fold_packages_images by auto

lemma delete_heads_channels_Inr:
  "delete_heads_channels chs S = Inr S' \<Longrightarrow>
   (\<forall>ch \<in> set chs. \<exists>h. Head ch = Inr h) \<and> S' = S - heads_of chs"
proof (induction chs arbitrary: S)
  case Nil
  then show ?case by (simp add: heads_of_def)
next
  case (Cons ch chs)
  from Cons.prems obtain h where h: "Head ch = Inr h"
    and rest: "delete_heads_channels chs (S - {Image h}) = Inr S'"
    by (auto split: sum.splits)
  from Cons.IH [OF rest] have "\<forall>ch \<in> set chs. \<exists>h. Head ch = Inr h"
    and "S' = S - {Image h} - heads_of chs" by auto
  moreover have "heads_of (ch # chs) = {Image h} \<union> heads_of chs"
    using h by (simp add: heads_of_def)
  ultimately show ?case using h by auto
qed

lemma delete_heads_Inr:
  "delete_heads pkgs S = Inr S' \<Longrightarrow>
   (\<forall>ch \<in> set (concat (map (\<lambda>pkg. map snd (Channels pkg)) pkgs)). \<exists>h. Head ch = Inr h) \<and>
   S' = S - heads_of (concat (map (\<lambda>pkg. map snd (Channels pkg)) pkgs))"
proof (induction pkgs arbitrary: S)
  case Nil
  then show ?case by (simp add: heads_of_def)
next
  case (Cons pkg pkgs)
  from Cons.prems obtain S1 where
    first: "delete_heads_channels (map snd (Channels pkg)) S = Inr S1"
    and rest: "delete_heads pkgs S1 = Inr S'"
    by (auto split: sum.splits)
  note a = delete_heads_channels_Inr [OF first] and b = Cons.IH [OF rest]
  have "heads_of (concat (map (\<lambda>pkg. map snd (Channels pkg)) (pkg # pkgs)))
          = heads_of (map snd (Channels pkg)) \<union> heads_of (concat (map (\<lambda>pkg. map snd (Channels pkg)) pkgs))"
    by (simp add: heads_of_def)
  with a b show ?case by auto
qed

lemma delete_heads_channels_Inl:
  "\<exists>ch \<in> set chs. isl (Head ch) \<Longrightarrow> isl (delete_heads_channels chs S)"
  by (induction chs arbitrary: S) (auto split: sum.splits)

lemma delete_heads_Inl:
  "\<exists>ch \<in> set (concat (map (\<lambda>pkg. map snd (Channels pkg)) pkgs)). isl (Head ch) \<Longrightarrow>
   isl (delete_heads pkgs S)"
proof (induction pkgs arbitrary: S)
  case Nil
  then show ?case by simp
next
  case (Cons pkg pkgs)
  show ?case
  proof (cases "delete_heads_channels (map snd (Channels pkg)) S")
    case (Inl err)
    then show ?thesis by simp
  next
    case (Inr S1)
    from delete_heads_channels_Inr [OF Inr] have "\<forall>ch \<in> set (map snd (Channels pkg)). \<not> isl (Head ch)"
      by auto
    with Cons.prems have "\<exists>ch \<in> set (concat (map (\<lambda>pkg. map snd (Channels pkg)) pkgs)). isl (Head ch)"
      by auto
    from Cons.IH [OF this] show ?thesis using Inr by simp
  qed
qed

lemma classification_fails:
  "isl (ConvertToModel E cfg) \<or> (\<exists>m. ConvertToModel E cfg = Inr m \<and> graph_error m) \<Longrightarrow>
   isl (getAllNonChannelHeads E cfg)"
proof (cases "ConvertToModel E cfg")
  case (Inl err)
  then show ?thesis by (simp add: getAllNonChannelHeads_def)
next
  case (Inr m)
  assume "isl (ConvertToModel E cfg) \<or> (\<exists>m. ConvertToModel E cfg = Inr m \<and> graph_error m)"
  with Inr have "\<exists>ch \<in> set (concat (map (\<lambda>pkg. map snd (Channels pkg)) (map snd m))). isl (Head ch)"
    by (simp add: graph_error_def model_channels_def)
  from delete_heads_Inl [OF this] show ?thesis
    using Inr by (simp add: getAllNonChannelHeads_def)
qed

text \<open>
  C10. The result of \<open>getAllNonChannelHeads\<close> is a set of image references: the images
  of all bundles of the model without the image of the head of each channel. So the
  image of a channel head is never in it, also when a bundle with the same image has an
  incoming edge in another channel.
\<close>

theorem non_heads_are_images_minus_heads:
  assumes "getAllNonChannelHeads E cfg = Inr S"
  shows "\<exists>m. ConvertToModel E cfg = Inr m \<and>
             S = model_images m - head_images m \<and>
             (\<forall>ch \<in> set (model_channels m). \<exists>h. Head ch = Inr h \<and> Image h \<notin> S)"
proof -
  from assms obtain m where m: "ConvertToModel E cfg = Inr m"
    and d: "delete_heads (map snd m) (insert_images m) = Inr S"
    by (auto simp: getAllNonChannelHeads_def split: sum.splits)
  from delete_heads_Inr [OF d] have
    all: "\<forall>ch \<in> set (model_channels m). \<exists>h. Head ch = Inr h" and
    S: "S = model_images m - head_images m"
    by (simp_all add: model_channels_def insert_images_eq head_images_def heads_of_def)
  have "\<forall>ch \<in> set (model_channels m). \<exists>h. Head ch = Inr h \<and> Image h \<notin> S"
  proof
    fix ch assume ch: "ch \<in> set (model_channels m)"
    with all obtain h where h: "Head ch = Inr h" by blast
    with ch have "Image h \<in> head_images m" by (force simp: head_images_def)
    with S h show "\<exists>h. Head ch = Inr h \<and> Image h \<notin> S" by blast
  qed
  with m S show ?thesis by blast
qed

lemma Head_chan_linear: "Head chan_linear = Inr v2"
  by (simp add: Head_by_candidates candidates_def has_incoming_def chan_linear_def v1_def v2_def)

lemma Head_chan_beta: "Head chan_beta = Inr v4"
  by (simp add: Head_by_candidates candidates_def has_incoming_def chan_beta_def v4_def v2_def)

lemma Head_chan_forked: "Head chan_forked = Inl ''multiple channel heads found in graph: v1, v3''"
  by (simp add: Head_by_candidates candidates_def has_incoming_def chan_forked_def v1_def v3_def)

lemma demo_two_non_heads: "getAllNonChannelHeads demo_env_two cfg = Inr {''img1''}"
proof -
  have "insert_images two_channel_model = {''img1'', ''img2'', ''img4''}"
    by (auto simp: insert_images_def two_channel_model_def chan_linear_def chan_beta_def
        v1_def v2_def v4_def)
  moreover have "Image v2 = ''img2''" "Image v4 = ''img4''"
    by (simp_all add: v2_def v4_def)
  ultimately show ?thesis
    by (auto simp: getAllNonChannelHeads_def demo_env_two_def demo_env_def two_channel_model_def
        Head_chan_linear Head_chan_beta)
qed

theorem non_heads_are_images_minus_heads_witness:
  "getAllNonChannelHeads demo_env_two demo_cfg = Inr {''img1''} \<and>
   ConvertToModel demo_env_two demo_cfg = Inr two_channel_model \<and>
   {''img1''} = model_images two_channel_model - head_images two_channel_model \<and>
   Head chan_linear = Inr v2 \<and> Image v2 = ''img2'' \<and>
   has_incoming chan_beta ''v2'' \<and> (''v2'', v2\<lparr>Replaces := []\<rparr>) \<in> set (Bundles chan_beta) \<and>
   ''img2'' \<notin> {''img1''}"
proof -
  have c: "ConvertToModel demo_env_two demo_cfg = Inr two_channel_model"
    by (simp add: demo_env_two_def)
  have i: "has_incoming chan_beta ''v2''" "(''v2'', v2\<lparr>Replaces := []\<rparr>) \<in> set (Bundles chan_beta)"
    "Image v2 = ''img2''"
    by (simp_all add: has_incoming_def chan_beta_def v4_def v2_def)
  have mi: "model_images two_channel_model = {''img1'', ''img2'', ''img4''}"
    by (auto simp: model_images_def model_channels_def two_channel_model_def chan_linear_def
        chan_beta_def v1_def v2_def v4_def)
  have hi: "head_images two_channel_model = {''img2'', ''img4''}"
    by (auto simp: head_images_def model_channels_def two_channel_model_def Head_chan_linear
        Head_chan_beta v2_def v4_def)
  have d: "{''img1''} = model_images two_channel_model - head_images two_channel_model"
    unfolding mi hi by auto
  note t = non_heads_are_images_minus_heads [OF demo_two_non_heads [of demo_cfg]]
  have "''img2'' \<notin> {''img1''}" by simp
  with t demo_two_non_heads [of demo_cfg] c i Head_chan_linear d show ?thesis
    by blast
qed

section \<open>The run of the command\<close>

lemma demo_forked_classification:
  "getAllNonChannelHeads demo_env_forked cfg = Inl ''multiple channel heads found in graph: v1, v3''"
  by (simp add: getAllNonChannelHeads_def demo_env_forked_def forked_model_def Head_chan_forked)

lemma demo_forked_graph_error: "graph_error forked_model"
  by (simp add: graph_error_def model_channels_def forked_model_def Head_chan_forked)

lemma demo_forked_inline_v1:
  "inline_bundle demo_env_forked ''catalog'' ''index.yaml'' bundle_v1 world0
   = (Inr (bundle_v1\<lparr>Properties := [p_package, p_channel,
         \<lparr>Type = ''olm.bundle.object'', Value = ''data:A''\<rparr>,
         \<lparr>Type = ''olm.bundle.object'', Value = ''data:B''\<rparr>]\<rparr>),
      \<lparr>files = [''catalog/index.yaml'', ''catalog/objects/v2.yaml'', ''/tmp/declcfg-inline-bundles-1''],
       pulls = [''img1''], written = []\<rparr>)"
  by (simp add: inline_bundle_def pull_image_def demo_env_forked_def demo_env_def Pull_def
      MkdirTemp_def world0_def bundle_v1_def p_package_def p_channel_def p_ref_def
      TypeBundleObject_def upt_rec demo_unmarshal_def RemoveAll_def demo_join_def
      eval_nat_numeral Let_def)

text \<open>
  C9, as stated, fails: for a catalog whose model has a channel with two heads, so that
  the classification fails, a run without the pruning flag finishes, having pulled an
  image, rewritten a bundle and written its file.
\<close>

theorem graph_error_not_fatal_without_pruning:
  "ConvertToModel demo_env_forked demo_cfg = Inr forked_model \<and> graph_error forked_model \<and>
   getAllNonChannelHeads demo_env_forked demo_cfg
     = Inl ''multiple channel heads found in graph: v1, v3'' \<and>
   run demo_env_forked False ''catalog'' [] demo_cfg [(''index.yaml'', demo_cfg)] world0
     = (Finished,
        \<lparr>files = [''catalog/index.yaml'', ''catalog/objects/v2.yaml'', ''/tmp/declcfg-inline-bundles-1''],
         pulls = [''img1''],
         written = [(''catalog/index.yaml'', YAML,
           \<lparr>cfg_Bundles = [bundle_v1\<lparr>Properties := [p_package, p_channel,
              \<lparr>Type = ''olm.bundle.object'', Value = ''data:A''\<rparr>,
              \<lparr>Type = ''olm.bundle.object'', Value = ''data:B''\<rparr>]\<rparr>]\<rparr>)]\<rparr>)"
proof -
  have e: "Ext ''index.yaml'' = ''.yaml''" by (simp add: Ext_def)
  have o: "OpenFile_result demo_env_forked f = None" "Write_result demo_env_forked fmt c = None"
    "filepath_Join demo_env_forked [''catalog'', ''index.yaml''] = ''catalog/index.yaml''" for f fmt c
    by (simp_all add: demo_env_forked_def demo_env_def demo_join_def)
  have b: "process_bundles demo_env_forked False {} {} ''catalog'' ''index.yaml''
             (cfg_Bundles demo_cfg) world0
           = (Inr [bundle_v1\<lparr>Properties := [p_package, p_channel,
                \<lparr>Type = ''olm.bundle.object'', Value = ''data:A''\<rparr>,
                \<lparr>Type = ''olm.bundle.object'', Value = ''data:B''\<rparr>]\<rparr>],
              \<lparr>files = [''catalog/index.yaml'', ''catalog/objects/v2.yaml'', ''/tmp/declcfg-inline-bundles-1''],
               pulls = [''img1''], written = []\<rparr>)"
    by (simp add: demo_cfg_def process_bundle_def demo_forked_inline_v1)
  have t: "file_task demo_env_forked False {} {} ''catalog'' ''index.yaml'' demo_cfg world0
     = (None,
        \<lparr>files = [''catalog/index.yaml'', ''catalog/objects/v2.yaml'', ''/tmp/declcfg-inline-bundles-1''],
         pulls = [''img1''],
         written = [(''catalog/index.yaml'', YAML,
           \<lparr>cfg_Bundles = [bundle_v1\<lparr>Properties := [p_package, p_channel,
              \<lparr>Type = ''olm.bundle.object'', Value = ''data:A''\<rparr>,
              \<lparr>Type = ''olm.bundle.object'', Value = ''data:B''\<rparr>]\<rparr>]\<rparr>)]\<rparr>)"
    by (simp add: file_task_def b e o Let_def)
  have "run demo_env_forked False ''catalog'' [] demo_cfg [(''index.yaml'', demo_cfg)] world0
     = (Finished,
        \<lparr>files = [''catalog/index.yaml'', ''catalog/objects/v2.yaml'', ''/tmp/declcfg-inline-bundles-1''],
         pulls = [''img1''],
         written = [(''catalog/index.yaml'', YAML,
           \<lparr>cfg_Bundles = [bundle_v1\<lparr>Properties := [p_package, p_channel,
              \<lparr>Type = ''olm.bundle.object'', Value = ''data:A''\<rparr>,
              \<lparr>Type = ''olm.bundle.object'', Value = ''data:B''\<rparr>]\<rparr>]\<rparr>)]\<rparr>)"
    by (simp add: run_def t)
  then show ?thesis
    using demo_forked_classification demo_forked_graph_error
    by (simp add: demo_env_forked_def)
qed

text \<open>
  C9, amended. In a run with the pruning flag the classification is computed from the
  whole catalog before any file task starts: when the conversion fails or a channel has
  no head or several, the run ends there and the state is as it was, so no bundle is
  rewritten; when it succeeds, every file task runs with that one result. In a run
  without the flag the classification is not computed and every file task runs with the
  empty set of non-heads.
\<close>

theorem classification_before_tasks:
  "(pr \<and> (isl (ConvertToModel E cfg) \<or> (\<exists>m. ConvertToModel E cfg = Inr m \<and> graph_error m)) \<longrightarrow>
      (\<exists>out. run E pr rootDir args cfg walked w = (out, w) \<and> out \<noteq> Finished)) \<and>
   (pr \<and> set args \<subseteq> set (map bundle_Image (cfg_Bundles cfg)) \<longrightarrow>
      (\<forall>err. getAllNonChannelHeads E cfg = Inl err \<longrightarrow>
         run E pr rootDir args cfg walked w = (Fatal err, w)) \<and>
      (\<forall>S. getAllNonChannelHeads E cfg = Inr S \<longrightarrow>
         run E pr rootDir args cfg walked w =
           (case run_tasks E pr S (set args) rootDir walked w of
              (Some err, w') \<Rightarrow> (Fatal err, w')
            | (None, w') \<Rightarrow> (Finished, w')))) \<and>
   (\<not> pr \<and> set args \<subseteq> set (map bundle_Image (cfg_Bundles cfg)) \<longrightarrow>
      run E pr rootDir args cfg walked w =
        (case run_tasks E pr {} (set args) rootDir walked w of
           (Some err, w') \<Rightarrow> (Fatal err, w')
         | (None, w') \<Rightarrow> (Finished, w')))"
proof (intro conjI impI allI)
  assume a: "pr \<and> (isl (ConvertToModel E cfg) \<or> (\<exists>m. ConvertToModel E cfg = Inr m \<and> graph_error m))"
  then have "isl (getAllNonChannelHeads E cfg)" by (simp add: classification_fails)
  then obtain err where "getAllNonChannelHeads E cfg = Inl err"
    by (cases "getAllNonChannelHeads E cfg") auto
  with a show "\<exists>out. run E pr rootDir args cfg walked w = (out, w) \<and> out \<noteq> Finished"
    by (auto simp: run_def Let_def)
next
  fix err
  assume "pr \<and> set args \<subseteq> set (map bundle_Image (cfg_Bundles cfg))"
    "getAllNonChannelHeads E cfg = Inl err"
  then show "run E pr rootDir args cfg walked w = (Fatal err, w)"
    by (auto simp: run_def Let_def)
next
  fix S
  assume "pr \<and> set args \<subseteq> set (map bundle_Image (cfg_Bundles cfg))"
    "getAllNonChannelHeads E cfg = Inr S"
  then show "run E pr rootDir args cfg walked w =
           (case run_tasks E pr S (set args) rootDir walked w of
              (Some err, w') \<Rightarrow> (Fatal err, w')
            | (None, w') \<Rightarrow> (Finished, w'))"
    by (auto simp: run_def Let_def)
next
  assume "\<not> pr \<and> set args \<subseteq> set (map bundle_Image (cfg_Bundles cfg))"
  then show "run E pr rootDir args cfg walked w =
        (case run_tasks E pr {} (set args) rootDir walked w of
           (Some err, w') \<Rightarrow> (Fatal err, w')
         | (None, w') \<Rightarrow> (Finished, w'))"
    by (auto simp: run_def Let_def)
qed

theorem classification_before_tasks_witness:
  "ConvertToModel demo_env_forked demo_cfg = Inr forked_model \<and> graph_error forked_model \<and>
   set [''img1''] \<subseteq> set (map bundle_Image (cfg_Bundles demo_cfg)) \<and>
   getAllNonChannelHeads demo_env_forked demo_cfg
     = Inl ''multiple channel heads found in graph: v1, v3'' \<and>
   run demo_env_forked True ''catalog'' [''img1''] demo_cfg [(''index.yaml'', demo_cfg)] world0
     = (Fatal ''multiple channel heads found in graph: v1, v3'', world0)"
proof -
  have c: "ConvertToModel demo_env_forked demo_cfg = Inr forked_model"
    by (simp add: demo_env_forked_def)
  have i: "set [''img1''] \<subseteq> set (map bundle_Image (cfg_Bundles demo_cfg))"
    by (simp add: demo_cfg_def bundle_v1_def)
  note g = demo_forked_classification [of demo_cfg]
  show ?thesis
    using classification_before_tasks [of True demo_env_forked demo_cfg "''catalog''" "[''img1'']"
        "[(''index.yaml'', demo_cfg)]" world0, THEN conjunct2, THEN conjunct1, THEN mp,
        OF conjI [OF TrueI i], THEN conjunct1, rule_format, OF g]
      c i g demo_forked_graph_error
    by simp
qed

end
